theory Spec2Isabelle
  imports Main "HOL-Library.Multiset"
begin

section \<open>Data model of \<open>environment/allocations.go\<close>\<close>

text \<open>
  \<open>nat.PortBinding\<close> of docker/go-connections: a host address and a host port, both
  strings. \<open>nat.Port\<close> is a string of the form \<open><port>/<proto>\<close>.
\<close>

record PortBinding =
  HostIP :: string
  HostPort :: string

type_synonym nat_Port = string

text \<open>
  \<open>nat.PortMap\<close> is \<open>map[Port][]PortBinding\<close>. A Go map is modelled as an association
  list with one pair per key; the order of the list is the order in which a \<open>range\<close>
  statement visits the entries, which Go leaves unspecified. Theorems about a table
  quantify over every such list, hence over every visiting order. The keys of a table
  are read with \<open>map fst\<close>, its entries with \<open>map_of\<close>.

  \<open>nat.PortSet\<close> is \<open>map[Port]struct{}\<close>, the Go idiom for a set.
\<close>

type_synonym PortMap = "(nat_Port \<times> PortBinding list) list"

type_synonym PortSet = "nat_Port set"

text \<open>
  The struct \<open>Allocations\<close>. \<open>Mappings\<close> is \<open>map[string][]int\<close>, again as the list of its
  entries in visiting order; a nil map and an empty map are both \<open>[]\<close> (ranging over
  either runs no iteration). Go's \<open>int\<close> is modelled as \<open>int\<close>: the code only compares
  ports and prints them, so no arithmetic can overflow.
\<close>

record DefaultMapping =
  Ip :: string
  Port :: int

record Allocations =
  ForceOutgoingIP :: bool
  DefaultMapping :: DefaultMapping
  Mappings :: "(string \<times> int list) list"

text \<open>
  The two settings read through \<open>config.Get().Docker.Network\<close>. The configuration
  package is not part of the sources, so the settings are a parameter of the model,
  constant during one call.
\<close>

record DockerNetwork =
  Interface :: string
  ISPN :: bool

text \<open>
  What a method can touch: the receiver \<open>*a\<close> and its local variable \<open>out\<close>. Every loop
  of the model threads this pair, so that a write to the receiver, if the source had
  one, would show in the \<open>recv\<close> field of the result.
\<close>

record 'r frame =
  recv :: Allocations
  out :: 'r

text \<open>The run-time panics the slice operations of \<open>DockerBindings\<close> can raise.\<close>

datatype panic =
  SliceBoundsOutOfRange nat nat
  | IndexOutOfRange nat nat

section \<open>Printing integers\<close>

text \<open>
  \<open>strconv.Itoa\<close> and the verb \<open>%d\<close> of \<open>fmt.Sprintf\<close> both print an \<open>int\<close> in decimal,
  with a leading minus sign for a negative number and no leading zeros.
\<close>

definition digit_char :: "nat \<Rightarrow> char" where
  "digit_char d = ''0123456789'' ! d"

fun dec :: "nat \<Rightarrow> string" where
  "dec n = (if n < 10 then [digit_char n] else dec (n div 10) @ [digit_char (n mod 10)])"

declare dec.simps [simp del]

definition Itoa :: "int \<Rightarrow> string" where
  "Itoa i = (if i < 0 then CHR ''-'' # dec (nat (- i)) else dec (nat i))"

section \<open>Bindings\<close>

text \<open>
  \<open>out[k] = append(out[k], b)\<close>: reading a missing key gives the nil slice, and
  appending to it gives the one-element slice, stored under a new key.
\<close>

fun append_at :: "nat_Port \<Rightarrow> PortBinding \<Rightarrow> PortMap \<Rightarrow> PortMap" where
  "append_at k b [] = [(k, [b])]"
| "append_at k b ((k', bs) # rest) =
     (if k' = k then (k', bs @ [b]) # rest else (k', bs) # append_at k b rest)"

text \<open>The body of the inner loop of \<open>Bindings\<close>, for one \<open>port\<close>.\<close>

definition Bindings_port :: "int \<Rightarrow> PortMap frame \<Rightarrow> PortMap frame" where
  "Bindings_port port s =
     (if port < 1 \<or> port > 65535 then s
      else
        let ipv6Binding = \<lparr>HostIP = ''[::]'', HostPort = Itoa port\<rparr>;
            tcpPort = Itoa port @ ''/tcp'';
            udpPort = Itoa port @ ''/udp'';
            s1 = s\<lparr>out := append_at tcpPort ipv6Binding (out s)\<rparr>
        in s1\<lparr>out := append_at udpPort ipv6Binding (out s1)\<rparr>)"

text \<open>The body of the outer loop: the key \<open>_\<close> of the entry is discarded.\<close>

definition Bindings_entry :: "string \<times> int list \<Rightarrow> PortMap frame \<Rightarrow> PortMap frame" where
  "Bindings_entry e s = fold Bindings_port (snd e) s"

definition Bindings_frame :: "Allocations \<Rightarrow> PortMap frame" where
  "Bindings_frame a = fold Bindings_entry (Mappings a) \<lparr>recv = a, out = []\<rparr>"

definition Bindings :: "Allocations \<Rightarrow> PortMap" where
  "Bindings a = out (Bindings_frame a)"

section \<open>DockerBindings\<close>

text \<open>
  The inner loop \<open>for i, alloc := range binds\<close> evaluates \<open>binds\<close> once: its length
  is fixed when the loop starts, and \<open>alloc\<close> is read from the backing array at each
  step. \<open>out[p]\<close> starts as the same slice and shares that array, so the state of the
  loop is the contents \<open>arr\<close> of the array (as long as \<open>binds\<close>) and the current length
  \<open>n\<close> of \<open>out[p]\<close>; the slice \<open>out[p]\<close> is \<open>take n arr\<close>.

  One step, at index \<open>i\<close>:
  \<^item> \<open>append(out[p][:i], out[p][i+1:]...)\<close>: the slice expression \<open>out[p][i+1:]\<close> panics
    when \<open>i + 1\<close> exceeds the length of \<open>out[p]\<close>; \<open>out[p][:i]\<close> may reach up to the
    capacity, which is at least the length of \<open>binds\<close>, so it never panics here. The
    result fits the capacity, so \<open>append\<close> moves the elements \<open>i + 1 .. n - 1\<close> one place
    down inside the same array, leaves the cells from \<open>n - 1\<close> on as they were, and
    returns a slice of length \<open>n - 1\<close>.
  \<^item> \<open>out[p][i] = ...\<close> panics when \<open>i\<close> is not below the length of \<open>out[p]\<close>.
\<close>

definition rewrite_at ::
  "DockerNetwork \<Rightarrow> nat \<Rightarrow> PortBinding list \<times> nat \<Rightarrow> panic + PortBinding list \<times> nat" where
  "rewrite_at cfg i s =
     (case s of (arr, n) \<Rightarrow>
        let alloc = arr ! i in
        if HostIP alloc \<noteq> ''127.0.0.1'' then Inr (arr, n)
        else if ISPN cfg then
          (if n < i + 1 then Inl (SliceBoundsOutOfRange (i + 1) n)
           else Inr (take i arr @ take (n - (i + 1)) (drop (i + 1) arr) @ drop (n - 1) arr,
                     n - 1))
        else
          (if i < n
           then Inr (arr[i := \<lparr>HostIP = Interface cfg, HostPort = HostPort alloc\<rparr>], n)
           else Inl (IndexOutOfRange i n)))"

text \<open>The indices the loop still has to visit; a panic ends the loop.\<close>

fun rewrite_loop ::
  "DockerNetwork \<Rightarrow> nat list \<Rightarrow> PortBinding list \<times> nat \<Rightarrow> panic + PortBinding list \<times> nat" where
  "rewrite_loop cfg [] s = Inr s"
| "rewrite_loop cfg (i # rest) s =
     (case rewrite_at cfg i s of Inl e \<Rightarrow> Inl e | Inr s' \<Rightarrow> rewrite_loop cfg rest s')"

text \<open>The inner loop on one list \<open>binds\<close>, returning the final value of \<open>out[p]\<close>.\<close>

definition rewrite_binds :: "DockerNetwork \<Rightarrow> PortBinding list \<Rightarrow> panic + PortBinding list" where
  "rewrite_binds cfg binds =
     (case rewrite_loop cfg [0..<length binds] (binds, length binds) of
        Inl e \<Rightarrow> Inl e
      | Inr (arr, n) \<Rightarrow> Inr (take n arr))"

text \<open>
  The outer loop \<open>for p, binds := range out\<close>. It only assigns to the key it is
  visiting, so every entry is visited once and keeps its place.
\<close>

fun rewrite :: "DockerNetwork \<Rightarrow> PortMap \<Rightarrow> panic + PortMap" where
  "rewrite cfg [] = Inr []"
| "rewrite cfg ((p, binds) # rest) =
     (case rewrite_binds cfg binds of
        Inl e \<Rightarrow> Inl e
      | Inr bs \<Rightarrow>
          (case rewrite cfg rest of
             Inl e \<Rightarrow> Inl e
           | Inr rest' \<Rightarrow> Inr ((p, bs) # rest')))"

definition DockerBindings_frame :: "DockerNetwork \<Rightarrow> Allocations \<Rightarrow> panic + PortMap frame" where
  "DockerBindings_frame cfg a =
     (let s = Bindings_frame a in
      case rewrite cfg (out s) of
        Inl e \<Rightarrow> Inl e
      | Inr t \<Rightarrow> Inr (s\<lparr>out := t\<rparr>))"

definition DockerBindings :: "DockerNetwork \<Rightarrow> Allocations \<Rightarrow> panic + PortMap" where
  "DockerBindings cfg a = map_sum id out (DockerBindings_frame cfg a)"

section \<open>Exposed\<close>

text \<open>The loop \<open>for port := range t { out[port] = struct{}{} }\<close> over a table \<open>t\<close>.\<close>

definition exposed_ports :: "PortMap \<Rightarrow> PortSet" where
  "exposed_ports t = fold (\<lambda>e acc. insert (fst e) acc) t {}"

definition Exposed_frame :: "DockerNetwork \<Rightarrow> Allocations \<Rightarrow> panic + PortSet frame" where
  "Exposed_frame cfg a =
     (case DockerBindings_frame cfg a of
        Inl e \<Rightarrow> Inl e
      | Inr s \<Rightarrow> Inr \<lparr>recv = recv s, out = exposed_ports (out s)\<rparr>)"

definition Exposed :: "DockerNetwork \<Rightarrow> Allocations \<Rightarrow> panic + PortSet" where
  "Exposed cfg a = map_sum id out (Exposed_frame cfg a)"

section \<open>Auxiliary notions for the statements\<close>

text \<open>The index expression \<open>t[k]\<close> of Go: the nil slice for a key that is missing.\<close>

definition lookup :: "PortMap \<Rightarrow> nat_Port \<Rightarrow> PortBinding list" where
  "lookup t k = (case map_of t k of None \<Rightarrow> [] | Some bs \<Rightarrow> bs)"

text \<open>Every port of the table \<open>Mappings\<close>, in the order the two loops of \<open>Bindings\<close> visit them.\<close>

definition ports_of :: "Allocations \<Rightarrow> int list" where
  "ports_of a = concat (map snd (Mappings a))"

text \<open>
  What the branch for a network that is not isolated does to one binding: a loopback
  binding gets the address of the bridge interface and keeps its port.
\<close>

definition to_bridge :: "DockerNetwork \<Rightarrow> PortBinding \<Rightarrow> PortBinding" where
  "to_bridge cfg b =
     (if HostIP b = ''127.0.0.1'' then \<lparr>HostIP = Interface cfg, HostPort = HostPort b\<rparr> else b)"

section \<open>Decimal printing is injective\<close>

lemma digit_char_inj: "d < 10 \<Longrightarrow> e < 10 \<Longrightarrow> digit_char d = digit_char e \<Longrightarrow> d = e"
proof -
  assume d: "d < 10" and e: "e < 10" and eq: "digit_char d = digit_char e"
  have D: "d \<in> {0,1,2,3,4,5,6,7,8,9}" using d by auto
  have E: "e \<in> {0,1,2,3,4,5,6,7,8,9}" using e by auto
  show ?thesis using D E eq by (auto simp: digit_char_def)
qed

lemma digit_char_not_minus: "d < 10 \<Longrightarrow> digit_char d \<noteq> CHR ''-''"
proof -
  assume d: "d < 10"
  have D: "d \<in> {0,1,2,3,4,5,6,7,8,9}" using d by auto
  show ?thesis using D by (auto simp: digit_char_def)
qed

lemma dec_not_Nil: "dec n \<noteq> []"
  by (subst dec.simps) simp

lemma dec_inj: "dec m = dec n \<Longrightarrow> m = n"
proof (induction m arbitrary: n rule: less_induct)
  case (less m)
  show ?case
  proof (cases "m < 10")
    case m: True
    show ?thesis
    proof (cases "n < 10")
      case True
      with m less.prems show ?thesis
        by (simp add: dec.simps [of m] dec.simps [of n] digit_char_inj)
    next
      case False
      with m less.prems show ?thesis
        using dec_not_Nil [of "n div 10"] by (auto simp: dec.simps [of m] dec.simps [of n])
    qed
  next
    case m: False
    show ?thesis
    proof (cases "n < 10")
      case True
      with m less.prems show ?thesis
        using dec_not_Nil [of "m div 10"] by (auto simp: dec.simps [of m] dec.simps [of n])
    next
      case False
      with m less.prems have a: "dec (m div 10) = dec (n div 10)"
        and b: "digit_char (m mod 10) = digit_char (n mod 10)"
        by (simp_all add: dec.simps [of m] dec.simps [of n])
      from m have "m div 10 < m" by simp
      from less.IH [OF this a] have q: "m div 10 = n div 10" .
      from b have r: "m mod 10 = n mod 10" by (simp add: digit_char_inj)
      from q r show ?thesis by (metis div_mult_mod_eq)
    qed
  qed
qed

lemma hd_dec_not_minus: "hd (dec n) \<noteq> CHR ''-''"
proof (induction n rule: dec.induct)
  case (1 n)
  show ?case
  proof (cases "n < 10")
    case True
    then show ?thesis by (simp add: dec.simps [of n] digit_char_not_minus)
  next
    case False
    with 1 show ?thesis by (simp add: dec.simps [of n] dec_not_Nil)
  qed
qed

lemma Itoa_inj: "Itoa i = Itoa j \<longleftrightarrow> i = j"
proof
  assume eq: "Itoa i = Itoa j"
  have neg: "CHR ''-'' # xs \<noteq> dec n" for xs n
    using hd_dec_not_minus [of n] by (cases "dec n") (auto simp: dec_not_Nil)
  show "i = j"
  proof (cases "i < 0")
    case i: True
    show ?thesis
    proof (cases "j < 0")
      case True
      with i eq have "dec (nat (- i)) = dec (nat (- j))" by (simp add: Itoa_def)
      then have "nat (- i) = nat (- j)" by (rule dec_inj)
      with i True show ?thesis by simp
    next
      case False
      with i eq neg show ?thesis by (simp add: Itoa_def)
    qed
  next
    case i: False
    show ?thesis
    proof (cases "j < 0")
      case True
      with i eq neg [of "dec (nat (- j))" "nat i"] show ?thesis by (simp add: Itoa_def)
    next
      case False
      with i eq have "dec (nat i) = dec (nat j)" by (simp add: Itoa_def)
      then have "nat i = nat j" by (rule dec_inj)
      with i False show ?thesis by simp
    qed
  qed
qed simp

section \<open>The table built by \<open>Bindings\<close>\<close>

lemma map_of_append_at:
  "map_of (append_at k b t) k' = (if k' = k then Some (lookup t k @ [b]) else map_of t k')"
  by (induction t) (auto simp: lookup_def)

lemma keys_append_at: "fst ` set (append_at k b t) = insert k (fst ` set t)"
proof (induction t)
  case Nil
  show ?case by simp
next
  case (Cons e t)
  obtain k' bs where e: "e = (k', bs)" by (cases e)
  show ?case using Cons.IH by (cases "k' = k") (simp_all add: e insert_commute)
qed

lemma distinct_append_at:
  "distinct (map fst t) \<Longrightarrow> distinct (map fst (append_at k b t))"
proof (induction t)
  case Nil
  show ?case by simp
next
  case (Cons e t)
  obtain k' bs where e: "e = (k', bs)" by (cases e)
  show ?case using Cons by (cases "k' = k") (simp_all add: e keys_append_at)
qed

lemma recv_Bindings_port: "recv (Bindings_port port s) = recv s"
  by (simp add: Bindings_port_def Let_def)

lemma out_Bindings_port_skip:
  "\<not> (1 \<le> port \<and> port \<le> 65535) \<Longrightarrow> Bindings_port port s = s"
  by (auto simp: Bindings_port_def)

lemma map_of_Bindings_port:
  "1 \<le> port \<Longrightarrow> port \<le> 65535 \<Longrightarrow>
   map_of (out (Bindings_port port s)) k =
     (if k = Itoa port @ ''/tcp'' \<or> k = Itoa port @ ''/udp''
      then Some (lookup (out s) k @ [\<lparr>HostIP = ''[::]'', HostPort = Itoa port\<rparr>])
      else map_of (out s) k)"
  by (simp add: Bindings_port_def Let_def map_of_append_at lookup_def)

lemma distinct_Bindings_port:
  "distinct (map fst (out s)) \<Longrightarrow> distinct (map fst (out (Bindings_port port s)))"
  by (simp add: Bindings_port_def Let_def distinct_append_at)

lemma lookup_Bindings_port:
  "1 \<le> port \<Longrightarrow> port \<le> 65535 \<Longrightarrow>
   lookup (out (Bindings_port port s)) k =
     (if k = Itoa port @ ''/tcp'' \<or> k = Itoa port @ ''/udp''
      then lookup (out s) k @ [\<lparr>HostIP = ''[::]'', HostPort = Itoa port\<rparr>]
      else lookup (out s) k)"
  using map_of_Bindings_port [of port s k] by (simp add: lookup_def)

lemma fold_Bindings_entry:
  "fold Bindings_entry ms s = fold Bindings_port (concat (map snd ms)) s"
  by (induction ms arbitrary: s) (simp_all add: Bindings_entry_def)

lemma recv_fold_Bindings_port: "recv (fold Bindings_port ps s) = recv s"
  by (induction ps arbitrary: s) (simp_all add: recv_Bindings_port)

lemma distinct_fold_Bindings_port:
  "distinct (map fst (out s)) \<Longrightarrow> distinct (map fst (out (fold Bindings_port ps s)))"
  by (induction ps arbitrary: s) (simp_all add: distinct_Bindings_port)

lemma map_of_fold_other:
  "\<forall>q\<in>set ps. 1 \<le> q \<and> q \<le> 65535 \<longrightarrow> k \<noteq> Itoa q @ ''/tcp'' \<and> k \<noteq> Itoa q @ ''/udp'' \<Longrightarrow>
   map_of (out (fold Bindings_port ps s)) k = map_of (out s) k"
proof (induction ps arbitrary: s)
  case Nil
  show ?case by simp
next
  case (Cons q ps)
  have step: "map_of (out (Bindings_port q s)) k = map_of (out s) k"
  proof (cases "1 \<le> q \<and> q \<le> 65535")
    case True
    with Cons.prems show ?thesis by (simp add: map_of_Bindings_port)
  next
    case False
    from out_Bindings_port_skip [OF this] show ?thesis by simp
  qed
  from Cons.prems have "\<forall>q\<in>set ps. 1 \<le> q \<and> q \<le> 65535 \<longrightarrow> k \<noteq> Itoa q @ ''/tcp'' \<and> k \<noteq> Itoa q @ ''/udp''"
    by simp
  from Cons.IH [OF this, of "Bindings_port q s"] step show ?case by simp
qed

lemma map_of_fold_port:
  assumes p: "1 \<le> p" "p \<le> 65535"
    and k: "k = Itoa p @ ''/tcp'' \<or> k = Itoa p @ ''/udp''"
  shows "map_of (out (fold Bindings_port ps s)) k =
     (if p \<in> set ps
      then Some (lookup (out s) k @ replicate (count_list ps p) \<lparr>HostIP = ''[::]'', HostPort = Itoa p\<rparr>)
      else map_of (out s) k)"
proof (induction ps arbitrary: s)
  case Nil
  show ?case by simp
next
  case (Cons q ps)
  let ?s = "Bindings_port q s"
  let ?b = "\<lparr>HostIP = ''[::]'', HostPort = Itoa p\<rparr>"
  note IH = Cons.IH [of ?s]
  show ?case
  proof (cases "q = p")
    case True
    have m: "map_of (out ?s) k = Some (lookup (out s) k @ [?b])"
      using p k True by (simp add: map_of_Bindings_port)
    have l: "lookup (out ?s) k = lookup (out s) k @ [?b]"
      using p k True by (simp add: lookup_Bindings_port)
    show ?thesis
    proof (cases "p \<in> set ps")
      case True
      with IH l \<open>q = p\<close> show ?thesis by (simp add: replicate_app_Cons_same)
    next
      case False
      then have "count_list ps p = 0" by (simp add: count_list_0_iff)
      with IH m False \<open>q = p\<close> show ?thesis by simp
    qed
  next
    case False
    have keys: "k \<noteq> Itoa q @ ''/tcp'' \<and> k \<noteq> Itoa q @ ''/udp''"
      using k False by (auto simp: Itoa_inj)
    have m: "map_of (out ?s) k = map_of (out s) k"
    proof (cases "1 \<le> q \<and> q \<le> 65535")
      case True
      with keys show ?thesis by (simp add: map_of_Bindings_port)
    next
      case False
      then show ?thesis by (simp add: out_Bindings_port_skip)
    qed
    then have l: "lookup (out ?s) k = lookup (out s) k" by (simp add: lookup_def)
    from IH m l False show ?thesis by simp
  qed
qed

lemma Bindings_eq_fold:
  "Bindings a = out (fold Bindings_port (ports_of a) \<lparr>recv = a, out = []\<rparr>)"
  by (simp add: Bindings_def Bindings_frame_def fold_Bindings_entry ports_of_def)

lemma distinct_Bindings: "distinct (map fst (Bindings a))"
  by (simp add: Bindings_eq_fold distinct_fold_Bindings_port)

lemma map_of_Bindings_port_key:
  "1 \<le> p \<Longrightarrow> p \<le> 65535 \<Longrightarrow> k = Itoa p @ ''/tcp'' \<or> k = Itoa p @ ''/udp'' \<Longrightarrow>
   map_of (Bindings a) k =
     (if p \<in> set (ports_of a)
      then Some (replicate (count_list (ports_of a) p) \<lparr>HostIP = ''[::]'', HostPort = Itoa p\<rparr>)
      else None)"
  by (simp add: Bindings_eq_fold map_of_fold_port lookup_def)

lemma map_of_Bindings_other:
  "\<forall>q\<in>set (ports_of a). 1 \<le> q \<and> q \<le> 65535 \<longrightarrow> k \<noteq> Itoa q @ ''/tcp'' \<and> k \<noteq> Itoa q @ ''/udp'' \<Longrightarrow>
   map_of (Bindings a) k = None"
  by (simp add: Bindings_eq_fold map_of_fold_other)

lemma Bindings_entries:
  assumes "(k, bs) \<in> set (Bindings a)"
  shows "\<exists>q\<in>set (ports_of a). 1 \<le> q \<and> q \<le> 65535 \<and>
           (k = Itoa q @ ''/tcp'' \<or> k = Itoa q @ ''/udp'') \<and>
           bs = replicate (count_list (ports_of a) q) \<lparr>HostIP = ''[::]'', HostPort = Itoa q\<rparr>"
proof -
  from assms have m: "map_of (Bindings a) k = Some bs"
    by (simp add: distinct_Bindings)
  then have "\<not> (\<forall>q\<in>set (ports_of a). 1 \<le> q \<and> q \<le> 65535 \<longrightarrow> k \<noteq> Itoa q @ ''/tcp'' \<and> k \<noteq> Itoa q @ ''/udp'')"
    using map_of_Bindings_other [of a k] by auto
  then obtain q where q: "q \<in> set (ports_of a)" "1 \<le> q" "q \<le> 65535"
    "k = Itoa q @ ''/tcp'' \<or> k = Itoa q @ ''/udp''" by blast
  from map_of_Bindings_port_key [OF q(2,3,4), of a] m q(1)
  have "bs = replicate (count_list (ports_of a) q) \<lparr>HostIP = ''[::]'', HostPort = Itoa q\<rparr>"
    by simp
  with q show ?thesis by blast
qed

section \<open>The rewriting loop\<close>

lemma rewrite_at_skip:
  "HostIP (arr ! i) \<noteq> ''127.0.0.1'' \<Longrightarrow> rewrite_at cfg i (arr, n) = Inr (arr, n)"
  by (simp add: rewrite_at_def)

lemma rewrite_loop_skip:
  "\<forall>i\<in>set idx. HostIP (arr ! i) \<noteq> ''127.0.0.1'' \<Longrightarrow>
   rewrite_loop cfg idx (arr, n) = Inr (arr, n)"
  by (induction idx) (simp_all add: rewrite_at_skip)

lemma rewrite_binds_skip:
  assumes "\<forall>b\<in>set binds. HostIP b \<noteq> ''127.0.0.1''"
  shows "rewrite_binds cfg binds = Inr binds"
proof -
  from assms have "\<forall>i\<in>set [0..<length binds]. HostIP (binds ! i) \<noteq> ''127.0.0.1''"
    by simp
  then show ?thesis by (simp add: rewrite_binds_def rewrite_loop_skip)
qed

lemma rewrite_skip:
  "\<forall>(p, binds)\<in>set t. \<forall>b\<in>set binds. HostIP b \<noteq> ''127.0.0.1'' \<Longrightarrow>
   rewrite cfg t = Inr t"
  by (induction t) (auto simp: rewrite_binds_skip)

lemma rewrite_loop_append:
  "rewrite_loop cfg (xs @ ys) s =
     (case rewrite_loop cfg xs s of Inl e \<Rightarrow> Inl e | Inr s' \<Rightarrow> rewrite_loop cfg ys s')"
  by (induction xs arbitrary: s) (simp_all split: sum.splits)

lemma rewrite_loop_bridge:
  assumes "\<not> ISPN cfg"
  shows "k \<le> length arr \<Longrightarrow>
     rewrite_loop cfg [0..<k] (arr, length arr) =
       Inr (map (to_bridge cfg) (take k arr) @ drop k arr, length arr)"
proof (induction k)
  case 0
  show ?case by simp
next
  case (Suc k)
  then have k: "k < length arr" by simp
  let ?arr = "map (to_bridge cfg) (take k arr) @ drop k arr"
  have nth: "?arr ! k = arr ! k" using k by (simp add: nth_append)
  have upd: "?arr[k := v] = map (to_bridge cfg) (take k arr) @ v # drop (Suc k) arr" for v
    using k by (simp add: list_update_append Cons_nth_drop_Suc [symmetric])
  have same: "?arr = map (to_bridge cfg) (take k arr) @ arr ! k # drop (Suc k) arr"
    using k by (simp add: Cons_nth_drop_Suc)
  have step: "rewrite_at cfg k (?arr, length arr) =
      Inr (map (to_bridge cfg) (take (Suc k) arr) @ drop (Suc k) arr, length arr)"
  proof (cases "HostIP (arr ! k) = ''127.0.0.1''")
    case True
    have "\<lparr>HostIP = Interface cfg, HostPort = HostPort (arr ! k)\<rparr> = to_bridge cfg (arr ! k)"
      using True by (simp add: to_bridge_def)
    with True assms k show ?thesis
      by (simp add: rewrite_at_def Let_def nth upd take_Suc_conv_app_nth)
  next
    case False
    then have tb: "to_bridge cfg (arr ! k) = arr ! k" by (simp add: to_bridge_def)
    have "rewrite_at cfg k (?arr, length arr) = Inr (?arr, length arr)"
      using False nth by (intro rewrite_at_skip) simp
    moreover have "?arr = map (to_bridge cfg) (take (Suc k) arr) @ drop (Suc k) arr"
      using k tb by (simp add: take_Suc_conv_app_nth Cons_nth_drop_Suc)
    ultimately show ?thesis by simp
  qed
  from Suc k step show ?case by (simp add: rewrite_loop_append)
qed

lemma rewrite_binds_bridge:
  "\<not> ISPN cfg \<Longrightarrow> rewrite_binds cfg binds = Inr (map (to_bridge cfg) binds)"
  by (simp add: rewrite_binds_def rewrite_loop_bridge)

lemma rewrite_bridge:
  "\<not> ISPN cfg \<Longrightarrow>
   rewrite cfg t = Inr (map (\<lambda>(p, binds). (p, map (to_bridge cfg) binds)) t)"
  by (induction t) (auto simp: rewrite_binds_bridge)


section \<open>The composed pipeline\<close>

lemma out_Bindings_port_cong:
  "out s = out s' \<Longrightarrow> out (Bindings_port p s) = out (Bindings_port p s')"
  by (simp add: Bindings_port_def Let_def)

lemma out_fold_Bindings_port_cong:
  "out s = out s' \<Longrightarrow> out (fold Bindings_port ps s) = out (fold Bindings_port ps s')"
proof (induction ps arbitrary: s s')
  case Nil
  then show ?case by simp
next
  case (Cons p ps)
  from Cons.prems have "out (Bindings_port p s) = out (Bindings_port p s')"
    by (rule out_Bindings_port_cong)
  from Cons.IH [OF this] show ?case by simp
qed

lemma Bindings_ports_of:
  "ports_of a = ports_of a' \<Longrightarrow> Bindings a = Bindings a'"
  using out_fold_Bindings_port_cong [of "\<lparr>recv = a, out = []\<rparr>" "\<lparr>recv = a', out = []\<rparr>" "ports_of a"]
  by (simp add: Bindings_eq_fold)

lemma Bindings_no_loopback:
  "\<forall>(p, binds)\<in>set (Bindings a). \<forall>b\<in>set binds. HostIP b \<noteq> ''127.0.0.1''"
proof (clarify)
  fix k bs b
  assume "(k, bs) \<in> set (Bindings a)" and b: "b \<in> set bs" and l: "HostIP b = ''127.0.0.1''"
  from Bindings_entries [OF this(1)] b have "HostIP b = ''[::]''" by auto
  with l show False by simp
qed

lemma recv_Bindings_frame: "recv (Bindings_frame a) = a"
  by (simp add: Bindings_frame_def fold_Bindings_entry recv_fold_Bindings_port)

lemma DockerBindings_frame_eq: "DockerBindings_frame cfg a = Inr (Bindings_frame a)"
  using rewrite_skip [OF Bindings_no_loopback, of cfg a]
  by (simp add: DockerBindings_frame_def Bindings_def)

lemma DockerBindings_eq: "DockerBindings cfg a = Inr (Bindings a)"
  by (simp add: DockerBindings_def DockerBindings_frame_eq Bindings_def)

lemma exposed_ports_fold: "fold (\<lambda>e acc. insert (fst e) acc) t S = fst ` set t \<union> S"
  by (induction t arbitrary: S) auto

lemma exposed_ports_keys: "exposed_ports t = fst ` set t"
  by (simp add: exposed_ports_def exposed_ports_fold)

lemma Exposed_frame_eq:
  "Exposed_frame cfg a = Inr \<lparr>recv = a, out = fst ` set (Bindings a)\<rparr>"
  by (simp add: Exposed_frame_def DockerBindings_frame_eq recv_Bindings_frame
      exposed_ports_keys Bindings_def)

lemma Exposed_eq: "Exposed cfg a = Inr (fst ` set (Bindings a))"
  by (simp add: Exposed_def Exposed_frame_eq)

lemma fold_Bindings_port_removeAll:
  "\<not> (1 \<le> p \<and> p \<le> 65535) \<Longrightarrow>
   fold Bindings_port (removeAll p ps) s = fold Bindings_port ps s"
proof (induction ps arbitrary: s)
  case Nil
  show ?case by simp
next
  case (Cons q ps)
  note IH = Cons.IH [OF Cons.prems]
  show ?case
  proof (cases "q = p")
    case True
    from out_Bindings_port_skip [OF Cons.prems] have "Bindings_port p s = s" .
    with True IH show ?thesis by simp
  next
    case False
    with IH show ?thesis by simp
  qed
qed

lemma ports_of_removeAll:
  "ports_of (a\<lparr>Mappings := map (\<lambda>(ip, ps). (ip, removeAll p ps)) (Mappings a)\<rparr>) =
     removeAll p (ports_of a)"
  by (simp add: ports_of_def removeAll_filter_not_eq filter_concat comp_def case_prod_unfold)

lemma Bindings_removeAll:
  assumes "\<not> (1 \<le> p \<and> p \<le> 65535)"
  shows "Bindings (a\<lparr>Mappings := map (\<lambda>(ip, ps). (ip, removeAll p ps)) (Mappings a)\<rparr>) =
     Bindings a"
proof -
  let ?a = "a\<lparr>Mappings := map (\<lambda>(ip, ps). (ip, removeAll p ps)) (Mappings a)\<rparr>"
  have "Bindings ?a = out (fold Bindings_port (ports_of a) \<lparr>recv = ?a, out = []\<rparr>)"
    by (simp only: Bindings_eq_fold ports_of_removeAll fold_Bindings_port_removeAll [OF assms])
  also have "\<dots> = out (fold Bindings_port (ports_of a) \<lparr>recv = a, out = []\<rparr>)"
    by (rule out_fold_Bindings_port_cong) simp
  finally show ?thesis by (simp only: Bindings_eq_fold)
qed

lemma mset_ports_of:
  "mset (Mappings a) = mset (Mappings a') \<Longrightarrow> mset (ports_of a) = mset (ports_of a')"
proof -
  assume eq: "mset (Mappings a) = mset (Mappings a')"
  have "mset (ports_of b) = sum_mset (image_mset (\<lambda>e. mset (snd e)) (mset (Mappings b)))" for b
    by (simp add: ports_of_def mset_concat comp_def flip: sum_mset_sum_list)
  with eq show ?thesis by simp
qed

lemma map_of_Bindings_mset:
  assumes eq: "mset (ports_of a) = mset (ports_of a')"
  shows "map_of (Bindings a) = map_of (Bindings a')"
proof
  fix k
  from eq have sets: "set (ports_of a) = set (ports_of a')" by (rule mset_eq_setD)
  from eq have counts: "count_list (ports_of a) q = count_list (ports_of a') q" for q
    by (metis count_mset)
  show "map_of (Bindings a) k = map_of (Bindings a') k"
  proof (cases "\<exists>q\<in>set (ports_of a). 1 \<le> q \<and> q \<le> 65535 \<and>
      (k = Itoa q @ ''/tcp'' \<or> k = Itoa q @ ''/udp'')")
    case True
    then obtain q where q: "q \<in> set (ports_of a)" "1 \<le> q" "q \<le> 65535"
      "k = Itoa q @ ''/tcp'' \<or> k = Itoa q @ ''/udp''" by blast
    from q(1) sets have q': "q \<in> set (ports_of a')" by simp
    from map_of_Bindings_port_key [OF q(2,3,4), of a] map_of_Bindings_port_key [OF q(2,3,4), of a']
      q(1) q' counts [of q]
    show ?thesis by simp
  next
    case False
    then have n: "\<forall>q\<in>set (ports_of a). 1 \<le> q \<and> q \<le> 65535 \<longrightarrow>
        k \<noteq> Itoa q @ ''/tcp'' \<and> k \<noteq> Itoa q @ ''/udp''" by blast
    with sets have n': "\<forall>q\<in>set (ports_of a'). 1 \<le> q \<and> q \<le> 65535 \<longrightarrow>
        k \<noteq> Itoa q @ ''/tcp'' \<and> k \<noteq> Itoa q @ ''/udp''" by simp
    from map_of_Bindings_other [OF n] map_of_Bindings_other [OF n'] show ?thesis by simp
  qed
qed

lemma map_of_Bindings_invalid:
  assumes "\<not> (1 \<le> p \<and> p \<le> 65535)"
    and "k = Itoa p @ ''/tcp'' \<or> k = Itoa p @ ''/udp''"
  shows "map_of (Bindings a) k = None"
proof -
  from assms
  have "\<forall>q\<in>set (ports_of a). 1 \<le> q \<and> q \<le> 65535 \<longrightarrow> k \<noteq> Itoa q @ ''/tcp'' \<and> k \<noteq> Itoa q @ ''/udp''"
    by (auto simp: Itoa_inj)
  then show ?thesis by (rule map_of_Bindings_other)
qed




section \<open>The claims\<close>

text \<open>The equations that evaluate the model on a concrete allocation or table.\<close>

lemmas eval_Bindings =
  Bindings_def Bindings_frame_def Bindings_entry_def Bindings_port_def Let_def
  Itoa_def dec.simps digit_char_def





text \<open>
  Claim C2: a port \<open>p\<close> between 1 and 65535 that occurs in some entry of \<open>Mappings\<close>
  gives the table exactly the two keys \<open>p/tcp\<close> and \<open>p/udp\<close>; each holds one binding per
  occurrence of \<open>p\<close>, with \<open>HostIP = [::]\<close> and \<open>HostPort\<close> the decimal string of \<open>p\<close>; no
  other key holds a binding of that port; and the IP keys of \<open>Mappings\<close> play no part:
  renaming them by any function \<open>f\<close> leaves the table as it is.
\<close>

theorem Bindings_valid_port:
  assumes "(ip, ports) \<in> set (Mappings a)" and "p \<in> set ports"
    and "1 \<le> p" and "p \<le> 65535"
  shows "0 < count_list (ports_of a) p \<and>
    map_of (Bindings a) (Itoa p @ ''/tcp'') =
      Some (replicate (count_list (ports_of a) p) \<lparr>HostIP = ''[::]'', HostPort = Itoa p\<rparr>) \<and>
    map_of (Bindings a) (Itoa p @ ''/udp'') =
      Some (replicate (count_list (ports_of a) p) \<lparr>HostIP = ''[::]'', HostPort = Itoa p\<rparr>) \<and>
    (\<forall>k bs b. (k, bs) \<in> set (Bindings a) \<and> b \<in> set bs \<and> HostPort b = Itoa p \<longrightarrow>
       k = Itoa p @ ''/tcp'' \<or> k = Itoa p @ ''/udp'') \<and>
    Bindings (a\<lparr>Mappings := map (\<lambda>(ip', ps). (f ip', ps)) (Mappings a)\<rparr>) = Bindings a"
proof -
  from assms(1,2) have mem: "p \<in> set (ports_of a)"
    by (force simp: ports_of_def)
  then have pos: "0 < count_list (ports_of a) p"
    using count_list_0_iff [of "ports_of a" p] by auto
  have tcp: "map_of (Bindings a) (Itoa p @ ''/tcp'') =
      Some (replicate (count_list (ports_of a) p) \<lparr>HostIP = ''[::]'', HostPort = Itoa p\<rparr>)"
    using assms(3,4) mem by (simp add: map_of_Bindings_port_key [of p])
  have udp: "map_of (Bindings a) (Itoa p @ ''/udp'') =
      Some (replicate (count_list (ports_of a) p) \<lparr>HostIP = ''[::]'', HostPort = Itoa p\<rparr>)"
    using assms(3,4) mem by (simp add: map_of_Bindings_port_key [of p])
  have only: "k = Itoa p @ ''/tcp'' \<or> k = Itoa p @ ''/udp''"
    if "(k, bs) \<in> set (Bindings a)" "b \<in> set bs" "HostPort b = Itoa p" for k bs b
  proof -
    from Bindings_entries [OF that(1)] obtain q where
      q: "k = Itoa q @ ''/tcp'' \<or> k = Itoa q @ ''/udp''"
      "bs = replicate (count_list (ports_of a) q) \<lparr>HostIP = ''[::]'', HostPort = Itoa q\<rparr>"
      by blast
    from q(2) that(2) have "HostPort b = Itoa q" by auto
    with that(3) have "q = p" by (simp add: Itoa_inj)
    with q(1) show ?thesis by simp
  qed
  have "ports_of (a\<lparr>Mappings := map (\<lambda>(ip', ps). (f ip', ps)) (Mappings a)\<rparr>) = ports_of a"
    by (simp add: ports_of_def comp_def case_prod_unfold)
  then have ren: "Bindings (a\<lparr>Mappings := map (\<lambda>(ip', ps). (f ip', ps)) (Mappings a)\<rparr>) = Bindings a"
    by (rule Bindings_ports_of)
  from pos tcp udp only ren show ?thesis by blast
qed

theorem Bindings_valid_port_witness:
  "map_of (Bindings \<lparr>ForceOutgoingIP = False, DefaultMapping = \<lparr>Ip = ''a'', Port = 8080\<rparr>,
      Mappings = [(''a'', [0, - 5, 70000, 8080])]\<rparr>) ''8080/tcp'' =
     Some [\<lparr>HostIP = ''[::]'', HostPort = ''8080''\<rparr>] \<and>
   map_of (Bindings \<lparr>ForceOutgoingIP = False, DefaultMapping = \<lparr>Ip = ''a'', Port = 8080\<rparr>,
      Mappings = [(''a'', [0, - 5, 70000, 8080])]\<rparr>) ''8080/udp'' =
     Some [\<lparr>HostIP = ''[::]'', HostPort = ''8080''\<rparr>]"
  using Bindings_valid_port [of "''a''" "[0, - 5, 70000, 8080]"
     "\<lparr>ForceOutgoingIP = False, DefaultMapping = \<lparr>Ip = ''a'', Port = 8080\<rparr>,
      Mappings = [(''a'', [0, - 5, 70000, 8080])]\<rparr>" 8080 "\<lambda>ip. ip"]
  by (simp add: ports_of_def Itoa_def dec.simps digit_char_def)

text \<open>
  Claim C3: with the network not isolated, the rewriting loop never panics; it replaces
  the \<open>HostIP\<close> of every binding whose \<open>HostIP\<close> is \<open>127.0.0.1\<close> by the address of the
  bridge interface, keeps its \<open>HostPort\<close>, and changes no other binding, key or position.
\<close>

theorem rewrite_not_isolated:
  "\<not> ISPN cfg \<Longrightarrow>
   rewrite cfg t =
     Inr (map (\<lambda>(p, binds).
            (p, map (\<lambda>b. if HostIP b = ''127.0.0.1''
                         then \<lparr>HostIP = Interface cfg, HostPort = HostPort b\<rparr>
                         else b) binds)) t)"
  using rewrite_bridge [of cfg t] unfolding to_bridge_def by simp

theorem rewrite_not_isolated_witness:
  "rewrite \<lparr>Interface = ''10.0.0.5'', ISPN = False\<rparr>
     [(''80/tcp'', [\<lparr>HostIP = ''127.0.0.1'', HostPort = ''80''\<rparr>,
                    \<lparr>HostIP = ''127.0.0.1'', HostPort = ''81''\<rparr>,
                    \<lparr>HostIP = ''[::]'', HostPort = ''80''\<rparr>]),
      (''80/udp'', [\<lparr>HostIP = ''0.0.0.0'', HostPort = ''80''\<rparr>])] =
   Inr [(''80/tcp'', [\<lparr>HostIP = ''10.0.0.5'', HostPort = ''80''\<rparr>,
                      \<lparr>HostIP = ''10.0.0.5'', HostPort = ''81''\<rparr>,
                      \<lparr>HostIP = ''[::]'', HostPort = ''80''\<rparr>]),
        (''80/udp'', [\<lparr>HostIP = ''0.0.0.0'', HostPort = ''80''\<rparr>])]"
  using rewrite_not_isolated [of "\<lparr>Interface = ''10.0.0.5'', ISPN = False\<rparr>"
     "[(''80/tcp'', [\<lparr>HostIP = ''127.0.0.1'', HostPort = ''80''\<rparr>,
                    \<lparr>HostIP = ''127.0.0.1'', HostPort = ''81''\<rparr>,
                    \<lparr>HostIP = ''[::]'', HostPort = ''80''\<rparr>]),
      (''80/udp'', [\<lparr>HostIP = ''0.0.0.0'', HostPort = ''80''\<rparr>])]"]
  by simp

text \<open>
  Claim C4: a port \<open>p\<close> below 1 or above 65535 is skipped without an error. The table has
  neither the key \<open>p/tcp\<close> nor the key \<open>p/udp\<close>, none of its bindings has the decimal
  string of \<open>p\<close> as \<open>HostPort\<close>, and the table is the one built from \<open>Mappings\<close> with every
  occurrence of \<open>p\<close> deleted. \<open>DockerBindings\<close> returns that same table and \<open>Exposed\<close> its
  set of keys, so neither holds a trace of \<open>p\<close> either.
\<close>

theorem Bindings_invalid_port:
  assumes "p < 1 \<or> 65535 < p"
  shows "Itoa p @ ''/tcp'' \<notin> fst ` set (Bindings a) \<and>
    Itoa p @ ''/udp'' \<notin> fst ` set (Bindings a) \<and>
    (\<forall>k bs b. (k, bs) \<in> set (Bindings a) \<and> b \<in> set bs \<longrightarrow> HostPort b \<noteq> Itoa p) \<and>
    Bindings (a\<lparr>Mappings := map (\<lambda>(ip, ps). (ip, removeAll p ps)) (Mappings a)\<rparr>) = Bindings a \<and>
    DockerBindings cfg a = Inr (Bindings a) \<and>
    Exposed cfg a = Inr (fst ` set (Bindings a))"
proof -
  from assms have inv: "\<not> (1 \<le> p \<and> p \<le> 65535)" by auto
  have tcp: "Itoa p @ ''/tcp'' \<notin> fst ` set (Bindings a)"
    using map_of_Bindings_invalid [OF inv, of "Itoa p @ ''/tcp''" a]
    by (simp add: map_of_eq_None_iff)
  have udp: "Itoa p @ ''/udp'' \<notin> fst ` set (Bindings a)"
    using map_of_Bindings_invalid [OF inv, of "Itoa p @ ''/udp''" a]
    by (simp add: map_of_eq_None_iff)
  have port: "HostPort b \<noteq> Itoa p" if "(k, bs) \<in> set (Bindings a)" "b \<in> set bs" for k bs b
  proof -
    from Bindings_entries [OF that(1)] obtain q where
      q: "1 \<le> q" "q \<le> 65535"
      "bs = replicate (count_list (ports_of a) q) \<lparr>HostIP = ''[::]'', HostPort = Itoa q\<rparr>"
      by blast
    from q(3) that(2) have "HostPort b = Itoa q" by auto
    moreover from q(1,2) inv have "q \<noteq> p" by auto
    ultimately show ?thesis by (simp add: Itoa_inj)
  qed
  from tcp udp port Bindings_removeAll [OF inv, of a] DockerBindings_eq [of cfg a] Exposed_eq [of cfg a]
  show ?thesis by blast
qed

theorem Bindings_invalid_port_witness:
  "''70000/tcp'' \<notin> fst ` set (Bindings \<lparr>ForceOutgoingIP = False,
      DefaultMapping = \<lparr>Ip = ''a'', Port = 8080\<rparr>,
      Mappings = [(''a'', [0, - 5, 70000, 8080])]\<rparr>) \<and>
   ''70000/udp'' \<notin> fst ` set (Bindings \<lparr>ForceOutgoingIP = False,
      DefaultMapping = \<lparr>Ip = ''a'', Port = 8080\<rparr>,
      Mappings = [(''a'', [0, - 5, 70000, 8080])]\<rparr>) \<and>
   Bindings \<lparr>ForceOutgoingIP = False, DefaultMapping = \<lparr>Ip = ''a'', Port = 8080\<rparr>,
      Mappings = [(''a'', [0, - 5, 8080])]\<rparr> =
   Bindings \<lparr>ForceOutgoingIP = False, DefaultMapping = \<lparr>Ip = ''a'', Port = 8080\<rparr>,
      Mappings = [(''a'', [0, - 5, 70000, 8080])]\<rparr>"
  using Bindings_invalid_port [of 70000
     "\<lparr>ForceOutgoingIP = False, DefaultMapping = \<lparr>Ip = ''a'', Port = 8080\<rparr>,
      Mappings = [(''a'', [0, - 5, 70000, 8080])]\<rparr>"]
  by (simp add: Itoa_def dec.simps digit_char_def)

text \<open>
  Claim C5: \<open>Exposed\<close> returns exactly the set of keys of the table \<open>DockerBindings\<close>
  returns. The loop of \<open>Exposed\<close> yields the key set of any table it ranges over,
  whatever lists of bindings the keys hold.
\<close>

theorem Exposed_is_key_set:
  "exposed_ports t = fst ` set t \<and>
   (\<exists>t'. DockerBindings cfg a = Inr t' \<and> Exposed cfg a = Inr (fst ` set t'))"
  by (simp add: exposed_ports_keys DockerBindings_eq Exposed_eq)

theorem Exposed_is_key_set_witness:
  "exposed_ports
     [(''25565/tcp'', [\<lparr>HostIP = ''[::]'', HostPort = ''25565''\<rparr>,
                       \<lparr>HostIP = ''10.0.0.5'', HostPort = ''25565''\<rparr>]),
      (''25565/udp'', [])] = {''25565/tcp'', ''25565/udp''}"
  using Exposed_is_key_set [of
     "[(''25565/tcp'', [\<lparr>HostIP = ''[::]'', HostPort = ''25565''\<rparr>,
                       \<lparr>HostIP = ''10.0.0.5'', HostPort = ''25565''\<rparr>]),
      (''25565/udp'', [])]"]
  by simp

text \<open>
  Claim C6: \<open>Bindings\<close>, \<open>DockerBindings\<close> and \<open>Exposed\<close> leave the receiver as it was: its
  \<open>Mappings\<close> and its other fields are the same after the call. Each builds its result in
  a fresh local \<open>out\<close>.
\<close>

theorem pipeline_keeps_receiver:
  "recv (Bindings_frame a) = a \<and>
   (\<exists>s. DockerBindings_frame cfg a = Inr s \<and> recv s = a) \<and>
   (\<exists>s. Exposed_frame cfg a = Inr s \<and> recv s = a)"
  by (simp add: recv_Bindings_frame DockerBindings_frame_eq Exposed_frame_eq)

theorem pipeline_keeps_receiver_witness:
  "recv (Bindings_frame \<lparr>ForceOutgoingIP = True, DefaultMapping = \<lparr>Ip = ''10.1.2.3'', Port = 27015\<rparr>,
      Mappings = [(''10.1.2.3'', [27015, 27016])]\<rparr>) =
   \<lparr>ForceOutgoingIP = True, DefaultMapping = \<lparr>Ip = ''10.1.2.3'', Port = 27015\<rparr>,
      Mappings = [(''10.1.2.3'', [27015, 27016])]\<rparr>"
  using pipeline_keeps_receiver [of
     "\<lparr>ForceOutgoingIP = True, DefaultMapping = \<lparr>Ip = ''10.1.2.3'', Port = 27015\<rparr>,
      Mappings = [(''10.1.2.3'', [27015, 27016])]\<rparr>"]
  by (rule conjunct1)

text \<open>
  Claim C7: for every allocation and every setting of the network, \<open>DockerBindings\<close> and
  \<open>Exposed\<close> return a result and never panic (\<open>Bindings\<close> has no operation that can
  fail: it only compares, prints, and appends to a map it made itself). With an empty
  \<open>Mappings\<close>, the three results are the empty table, the empty table and the empty set.
\<close>

theorem pipeline_total:
  "(\<exists>t. DockerBindings cfg a = Inr t) \<and> (\<exists>S. Exposed cfg a = Inr S) \<and>
   (Mappings a = [] \<longrightarrow>
      Bindings a = [] \<and> DockerBindings cfg a = Inr [] \<and> Exposed cfg a = Inr {})"
proof -
  have "Mappings a = [] \<Longrightarrow> Bindings a = []"
    by (simp add: Bindings_def Bindings_frame_def)
  then show ?thesis by (auto simp: DockerBindings_eq Exposed_eq)
qed

theorem pipeline_total_witness:
  "Bindings \<lparr>ForceOutgoingIP = True, DefaultMapping = \<lparr>Ip = ''10.1.2.3'', Port = 27015\<rparr>,
      Mappings = []\<rparr> = [] \<and>
   DockerBindings \<lparr>Interface = '''', ISPN = True\<rparr>
     \<lparr>ForceOutgoingIP = True, DefaultMapping = \<lparr>Ip = ''10.1.2.3'', Port = 27015\<rparr>,
      Mappings = []\<rparr> = Inr [] \<and>
   Exposed \<lparr>Interface = '''', ISPN = True\<rparr>
     \<lparr>ForceOutgoingIP = True, DefaultMapping = \<lparr>Ip = ''10.1.2.3'', Port = 27015\<rparr>,
      Mappings = []\<rparr> = Inr {}"
  using pipeline_total [of "\<lparr>Interface = '''', ISPN = True\<rparr>"
     "\<lparr>ForceOutgoingIP = True, DefaultMapping = \<lparr>Ip = ''10.1.2.3'', Port = 27015\<rparr>,
      Mappings = []\<rparr>"]
  by simp

text \<open>
  Claim C8: two runs of \<open>Bindings\<close> on the same allocation build the same table. The
  only freedom a run has is the order in which \<open>range\<close> visits the entries of
  \<open>Mappings\<close>; two lists of the same entries in any two orders give tables that are equal
  as maps: the same keys and, under each key, the same sequence of bindings.
\<close>

theorem Bindings_order_independent:
  assumes "mset (Mappings a) = mset (Mappings a')"
  shows "map_of (Bindings a) = map_of (Bindings a') \<and>
    fst ` set (Bindings a) = fst ` set (Bindings a')"
proof -
  from assms have "mset (ports_of a) = mset (ports_of a')" by (rule mset_ports_of)
  then have m: "map_of (Bindings a) = map_of (Bindings a')" by (rule map_of_Bindings_mset)
  then have "dom (map_of (Bindings a)) = dom (map_of (Bindings a'))" by simp
  then have "fst ` set (Bindings a) = fst ` set (Bindings a')"
    by (simp only: dom_map_of_conv_image_fst)
  with m show ?thesis by simp
qed

theorem Bindings_order_independent_witness:
  "map_of (Bindings \<lparr>ForceOutgoingIP = False, DefaultMapping = \<lparr>Ip = ''a'', Port = 80\<rparr>,
      Mappings = [(''a'', [80, 443]), (''b'', [80])]\<rparr>) =
   map_of (Bindings \<lparr>ForceOutgoingIP = False, DefaultMapping = \<lparr>Ip = ''a'', Port = 80\<rparr>,
      Mappings = [(''b'', [80]), (''a'', [80, 443])]\<rparr>)"
proof -
  have "mset [(''a'', [80, 443 :: int]), (''b'', [80])] = mset [(''b'', [80]), (''a'', [80, 443])]"
    by simp
  then show ?thesis
    using Bindings_order_independent [of
      "\<lparr>ForceOutgoingIP = False, DefaultMapping = \<lparr>Ip = ''a'', Port = 80\<rparr>,
        Mappings = [(''a'', [80, 443]), (''b'', [80])]\<rparr>"
      "\<lparr>ForceOutgoingIP = False, DefaultMapping = \<lparr>Ip = ''a'', Port = 80\<rparr>,
        Mappings = [(''b'', [80]), (''a'', [80, 443])]\<rparr>"]
    by simp
qed

text \<open>
  Claim C9: for every allocation, bridge address and isolation flag, \<open>DockerBindings\<close>
  returns the table of \<open>Bindings\<close> unchanged, since no binding of that table has the
  address \<open>127.0.0.1\<close>; \<open>Exposed\<close> returns its key set, whatever the settings.
\<close>

theorem DockerBindings_is_Bindings:
  "DockerBindings cfg a = Inr (Bindings a) \<and> Exposed cfg a = Inr (fst ` set (Bindings a))"
  by (simp add: DockerBindings_eq Exposed_eq)

theorem DockerBindings_is_Bindings_witness:
  "DockerBindings \<lparr>Interface = ''172.18.0.1'', ISPN = False\<rparr>
     \<lparr>ForceOutgoingIP = False, DefaultMapping = \<lparr>Ip = ''0.0.0.0'', Port = 25565\<rparr>,
      Mappings = [(''0.0.0.0'', [25565])]\<rparr> =
   Inr [(''25565/tcp'', [\<lparr>HostIP = ''[::]'', HostPort = ''25565''\<rparr>]),
        (''25565/udp'', [\<lparr>HostIP = ''[::]'', HostPort = ''25565''\<rparr>])] \<and>
   Exposed \<lparr>Interface = ''172.18.0.1'', ISPN = False\<rparr>
     \<lparr>ForceOutgoingIP = False, DefaultMapping = \<lparr>Ip = ''0.0.0.0'', Port = 25565\<rparr>,
      Mappings = [(''0.0.0.0'', [25565])]\<rparr> =
   Inr {''25565/tcp'', ''25565/udp''}"
  using DockerBindings_is_Bindings [of "\<lparr>Interface = ''172.18.0.1'', ISPN = False\<rparr>"
     "\<lparr>ForceOutgoingIP = False, DefaultMapping = \<lparr>Ip = ''0.0.0.0'', Port = 25565\<rparr>,
      Mappings = [(''0.0.0.0'', [25565])]\<rparr>"]
  by (simp add: eval_Bindings)

text \<open>
  Claim C10: in the table of \<open>Bindings\<close> the key \<open>p/tcp\<close> is present exactly when the key
  \<open>p/udp\<close> is, and both hold the same list of bindings.
\<close>

theorem Bindings_tcp_udp_paired:
  "map_of (Bindings a) (Itoa p @ ''/tcp'') = map_of (Bindings a) (Itoa p @ ''/udp'') \<and>
   (Itoa p @ ''/tcp'' \<in> fst ` set (Bindings a)) = (Itoa p @ ''/udp'' \<in> fst ` set (Bindings a))"
proof -
  have eq: "map_of (Bindings a) (Itoa p @ ''/tcp'') = map_of (Bindings a) (Itoa p @ ''/udp'')"
  proof (cases "1 \<le> p \<and> p \<le> 65535")
    case True
    then show ?thesis by (simp add: map_of_Bindings_port_key [of p])
  next
    case False
    then show ?thesis by (simp add: map_of_Bindings_invalid [of p])
  qed
  from eq have "(map_of (Bindings a) (Itoa p @ ''/tcp'') = None) =
      (map_of (Bindings a) (Itoa p @ ''/udp'') = None)" by simp
  then have "(Itoa p @ ''/tcp'' \<in> fst ` set (Bindings a)) =
      (Itoa p @ ''/udp'' \<in> fst ` set (Bindings a))"
    unfolding map_of_eq_None_iff by simp
  with eq show ?thesis by simp
qed

theorem Bindings_tcp_udp_paired_witness:
  "map_of (Bindings \<lparr>ForceOutgoingIP = False, DefaultMapping = \<lparr>Ip = ''a'', Port = 80\<rparr>,
      Mappings = [(''a'', [80, 443]), (''b'', [80])]\<rparr>) ''80/tcp'' =
   map_of (Bindings \<lparr>ForceOutgoingIP = False, DefaultMapping = \<lparr>Ip = ''a'', Port = 80\<rparr>,
      Mappings = [(''a'', [80, 443]), (''b'', [80])]\<rparr>) ''80/udp''"
  using Bindings_tcp_udp_paired [of
     "\<lparr>ForceOutgoingIP = False, DefaultMapping = \<lparr>Ip = ''a'', Port = 80\<rparr>,
      Mappings = [(''a'', [80, 443]), (''b'', [80])]\<rparr>" 80]
  by (simp add: Itoa_def dec.simps digit_char_def)

end
